theory Spec2Isabelle
  imports Main "HOL-Library.Word"
begin

unbundle bit_operations_syntax

section \<open>Text\<close>

text \<open>
  A Python \<open>str\<close> is modelled as a \<open>string\<close>, one \<open>char\<close> per code point, so
  the development covers documents whose code points lie in the range 0..255.
  \<open>len\<close> is \<open>length\<close>, and \<open>str.encode()\<close> (UTF-8) turns a code point from 128
  on into two bytes.
\<close>

definition isspace :: "char \<Rightarrow> bool" where
  \<comment> \<open>\<open>str.isspace\<close> on the code points below 256\<close>
  "isspace c = (c \<in> set [CHR 0x09, CHR 0x0A, CHR 0x0B, CHR 0x0C, CHR 0x0D,
                          CHR 0x1C, CHR 0x1D, CHR 0x1E, CHR 0x1F, CHR 0x20,
                          CHR 0x85, CHR 0xA0])"

definition lstrip_ws :: "string \<Rightarrow> string" where
  "lstrip_ws s = dropWhile isspace s"

definition rstrip_ws :: "string \<Rightarrow> string" where
  \<comment> \<open>\<open>s.rstrip()\<close>\<close>
  "rstrip_ws s = rev (dropWhile isspace (rev s))"

definition strip_ws :: "string \<Rightarrow> string" where
  \<comment> \<open>\<open>s.strip()\<close>\<close>
  "strip_ws s = rstrip_ws (lstrip_ws s)"

definition lstrip_chars :: "string \<Rightarrow> string \<Rightarrow> string" where
  \<comment> \<open>\<open>s.lstrip(chars)\<close>: drops leading characters that belong to the set \<open>chars\<close>\<close>
  "lstrip_chars chars s = dropWhile (\<lambda>c. c \<in> set chars) s"

definition startswith :: "string \<Rightarrow> string \<Rightarrow> bool" where
  \<comment> \<open>\<open>s.startswith(pre)\<close>\<close>
  "startswith pre s = (take (length pre) s = pre)"

lemma dropWhile_twice_shorter:
  "dropWhile P s \<noteq> [] \<Longrightarrow> length (dropWhile (\<lambda>c. \<not> P c) (dropWhile P s)) < length s"
proof (induction s)
  case Nil
  then show ?case by simp
next
  case (Cons x xs)
  show ?case
  proof (cases "P x")
    case True
    with Cons show ?thesis by simp
  next
    case False
    have "length (dropWhile (\<lambda>c. \<not> P c) xs) \<le> length xs"
      by (rule length_dropWhile_le)
    with False show ?thesis by simp
  qed
qed

function split_ws :: "string \<Rightarrow> string list" where
  \<comment> \<open>\<open>s.split()\<close>: the maximal runs of non-whitespace characters\<close>
  "split_ws s =
     (let s' = dropWhile isspace s
      in if s' = [] then []
         else takeWhile (\<lambda>c. \<not> isspace c) s' # split_ws (dropWhile (\<lambda>c. \<not> isspace c) s'))"
  by pat_completeness auto
termination
  by (relation "measure length") (auto intro: dropWhile_twice_shorter)

fun str_join :: "string \<Rightarrow> string list \<Rightarrow> string" where
  \<comment> \<open>\<open>sep.join(xs)\<close>\<close>
  "str_join sep [] = []"
| "str_join sep [x] = x"
| "str_join sep (x # y # ys) = x @ sep @ str_join sep (y # ys)"

definition digit_char :: "nat \<Rightarrow> char" where
  "digit_char d = ''0123456789'' ! d"

function str_nat :: "nat \<Rightarrow> string" where
  \<comment> \<open>the decimal text of a non-negative integer, as an f-string prints it\<close>
  "str_nat n = (if n < 10 then [digit_char n] else str_nat (n div 10) @ [digit_char (n mod 10)])"
  by pat_completeness auto
termination
  by (relation "measure id") auto

function str_replace :: "string \<Rightarrow> string \<Rightarrow> string \<Rightarrow> string" where
  \<comment> \<open>\<open>text.replace(old, new)\<close>: every non-overlapping occurrence, left to right; an
      empty \<open>old\<close> matches before every character and at the end\<close>
  "str_replace old new text =
     (if old = [] then new @ concat (map (\<lambda>c. c # new) text)
      else if text = [] then []
      else if startswith old text then new @ str_replace old new (drop (length old) text)
      else hd text # str_replace old new (tl text))"
  by pat_completeness auto
termination
  by (relation "measure (\<lambda>(old, new, text). length text)") auto

section \<open>Regular expressions of the inline rewriter\<close>

text \<open>
  \<open>d d ([^d]+) d d\<close> at the start of the text, for a delimiter character \<open>d\<close>: the
  group takes every character up to the next \<open>d\<close>, at least one, and two \<open>d\<close> follow.
  The result is the group and the text after the match.
\<close>

definition match_pair :: "char \<Rightarrow> string \<Rightarrow> (string \<times> string) option" where
  "match_pair d s =
     (if startswith [d, d] s then
        (let body = drop 2 s; content = takeWhile (\<lambda>c. c \<noteq> d) body;
             after = dropWhile (\<lambda>c. c \<noteq> d) body
         in if content \<noteq> [] \<and> startswith [d, d] after then Some (content, drop 2 after)
            else None)
      else None)"

lemma match_pair_shorter:
  "match_pair d s = Some (content, rest) \<Longrightarrow> length rest < length s"
proof -
  assume m: "match_pair d s = Some (content, rest)"
  then have st: "startswith [d, d] s"
    and rest: "rest = drop 2 (dropWhile (\<lambda>c. c \<noteq> d) (drop 2 s))"
    by (auto simp: match_pair_def Let_def split: if_splits)
  from st have "2 \<le> length s"
    by (cases s; cases "tl s") (auto simp: startswith_def)
  moreover have "length rest \<le> length (drop 2 s)"
    unfolding rest using length_dropWhile_le [of "\<lambda>c. c \<noteq> d" "drop 2 s"] by simp
  ultimately show ?thesis by simp
qed

function re_sub_pair :: "char \<Rightarrow> string \<Rightarrow> string \<Rightarrow> string \<Rightarrow> string" where
  \<comment> \<open>\<open>re.sub\<close> of the pattern above by \<open>l \1 r\<close>: leftmost matches, not overlapping\<close>
  "re_sub_pair d l r s =
     (if s = [] then []
      else case match_pair d s of
             Some (content, rest) \<Rightarrow> l @ content @ r @ re_sub_pair d l r rest
           | None \<Rightarrow> hd s # re_sub_pair d l r (tl s))"
  by pat_completeness auto
termination
  by (relation "measure (\<lambda>(d, l, r, s). length s)") (auto dest: match_pair_shorter)

text \<open>
  \<open>(.*?) c c\<close>: the lazy group stops at the first \<open>c c\<close>; the dot takes any character
  but a newline.
\<close>

fun lazy_body :: "char \<Rightarrow> string \<Rightarrow> (string \<times> string) option" where
  "lazy_body c [] = None"
| "lazy_body c (x # xs) =
     (if startswith [c, c] (x # xs) then Some ([], drop 1 xs)
      else if x = CHR 0x0A then None
      else case lazy_body c xs of
             None \<Rightarrow> None
           | Some (content, rest) \<Rightarrow> Some (x # content, rest))"

definition match_lazy :: "char \<Rightarrow> char \<Rightarrow> string \<Rightarrow> (string \<times> string) option" where
  \<comment> \<open>\<open>o o (.*?) c c\<close> at the start of the text\<close>
  "match_lazy opn c s = (if startswith [opn, opn] s then lazy_body c (drop 2 s) else None)"

lemma lazy_body_shorter:
  "lazy_body c s = Some (content, rest) \<Longrightarrow> length rest < length s"
proof (induction s arbitrary: content)
  case Nil
  then show ?case by simp
next
  case (Cons x xs)
  show ?case
  proof (cases "startswith [c, c] (x # xs)")
    case True
    with Cons.prems show ?thesis by auto
  next
    case False
    with Cons.prems obtain content' where "lazy_body c xs = Some (content', rest)"
      by (auto split: if_splits option.splits)
    from Cons.IH [OF this] show ?thesis by simp
  qed
qed

lemma match_lazy_shorter:
  "match_lazy opn c s = Some (content, rest) \<Longrightarrow> length rest < length s"
  by (auto simp: match_lazy_def split: if_splits dest!: lazy_body_shorter)

function re_findall :: "char \<Rightarrow> char \<Rightarrow> string \<Rightarrow> string list" where
  \<comment> \<open>\<open>re.findall\<close> of \<open>o o (.*?) c c\<close>: the groups of the leftmost matches, not
      overlapping\<close>
  "re_findall opn c s =
     (if s = [] then []
      else case match_lazy opn c s of
             Some (content, rest) \<Rightarrow> content # re_findall opn c rest
           | None \<Rightarrow> re_findall opn c (tl s))"
  by pat_completeness auto
termination
  by (relation "measure (\<lambda>(opn, c, s). length s)") (auto dest: match_lazy_shorter)

section \<open>MD5 (hashlib.md5, RFC 1321)\<close>

type_synonym u32 = "32 word"

definition md5_K :: "u32 list" where
  "md5_K = [
    0xd76aa478, 0xe8c7b756, 0x242070db, 0xc1bdceee, 0xf57c0faf, 0x4787c62a, 0xa8304613, 0xfd469501,
    0x698098d8, 0x8b44f7af, 0xffff5bb1, 0x895cd7be, 0x6b901122, 0xfd987193, 0xa679438e, 0x49b40821,
    0xf61e2562, 0xc040b340, 0x265e5a51, 0xe9b6c7aa, 0xd62f105d, 0x02441453, 0xd8a1e681, 0xe7d3fbc8,
    0x21e1cde6, 0xc33707d6, 0xf4d50d87, 0x455a14ed, 0xa9e3e905, 0xfcefa3f8, 0x676f02d9, 0x8d2a4c8a,
    0xfffa3942, 0x8771f681, 0x6d9d6122, 0xfde5380c, 0xa4beea44, 0x4bdecfa9, 0xf6bb4b60, 0xbebfbc70,
    0x289b7ec6, 0xeaa127fa, 0xd4ef3085, 0x04881d05, 0xd9d4d039, 0xe6db99e5, 0x1fa27cf8, 0xc4ac5665,
    0xf4292244, 0x432aff97, 0xab9423a7, 0xfc93a039, 0x655b59c3, 0x8f0ccc92, 0xffeff47d, 0x85845dd1,
    0x6fa87e4f, 0xfe2ce6e0, 0xa3014314, 0x4e0811a1, 0xf7537e82, 0xbd3af235, 0x2ad7d2bb, 0xeb86d391]"

definition md5_S :: "nat list" where
  "md5_S = [
    7, 12, 17, 22, 7, 12, 17, 22, 7, 12, 17, 22, 7, 12, 17, 22,
    5, 9, 14, 20, 5, 9, 14, 20, 5, 9, 14, 20, 5, 9, 14, 20,
    4, 11, 16, 23, 4, 11, 16, 23, 4, 11, 16, 23, 4, 11, 16, 23,
    6, 10, 15, 21, 6, 10, 15, 21, 6, 10, 15, 21, 6, 10, 15, 21]"

definition rotl32 :: "u32 \<Rightarrow> nat \<Rightarrow> u32" where
  "rotl32 x c = push_bit c x OR drop_bit (32 - c) x"

definition md5_step ::
  "u32 list \<Rightarrow> u32 \<times> u32 \<times> u32 \<times> u32 \<Rightarrow> nat \<Rightarrow> u32 \<times> u32 \<times> u32 \<times> u32" where
  \<comment> \<open>round \<open>i\<close> on the sixteen words \<open>M\<close> of a block\<close>
  "md5_step M st i =
     (case st of (A, B, C, D) \<Rightarrow>
        let (F, g) =
              (if i < 16 then ((B AND C) OR (NOT B AND D), i)
               else if i < 32 then ((D AND B) OR (NOT D AND C), (5 * i + 1) mod 16)
               else if i < 48 then (B XOR C XOR D, (3 * i + 5) mod 16)
               else (C XOR (B OR NOT D), (7 * i) mod 16));
            F' = F + A + md5_K ! i + M ! g
        in (D, B + rotl32 F' (md5_S ! i), B, C))"

definition md5_block ::
  "u32 \<times> u32 \<times> u32 \<times> u32 \<Rightarrow> u32 list \<Rightarrow> u32 \<times> u32 \<times> u32 \<times> u32" where
  "md5_block h M =
     (case h of (a0, b0, c0, d0) \<Rightarrow>
        case foldl (md5_step M) h [0..<64] of (A, B, C, D) \<Rightarrow>
          (a0 + A, b0 + B, c0 + C, d0 + D))"

definition md5_pad :: "nat list \<Rightarrow> nat list" where
  \<comment> \<open>the byte 0x80, zeros up to 56 modulo 64, and the bit length in 8 bytes, lowest first\<close>
  "md5_pad bs =
     (let n = length bs
      in bs @ [128] @ replicate ((119 - n mod 64) mod 64) 0
            @ map (\<lambda>i. ((8 * n) div 256 ^ i) mod 256) [0, 1, 2, 3, 4, 5, 6, 7])"

fun le_words :: "nat list \<Rightarrow> u32 list" where
  "le_words (b0 # b1 # b2 # b3 # bs) =
     of_nat (b0 + 256 * b1 + 65536 * b2 + 16777216 * b3) # le_words bs"
| "le_words _ = []"

function md5_blocks :: "u32 list \<Rightarrow> u32 list list" where
  "md5_blocks ws = (if ws = [] then [] else take 16 ws # md5_blocks (drop 16 ws))"
  by pat_completeness auto
termination
  by (relation "measure length") auto

definition le_bytes :: "u32 \<Rightarrow> nat list" where
  "le_bytes w = map (\<lambda>i. (unat w div 256 ^ i) mod 256) [0, 1, 2, 3]"

definition md5_digest :: "nat list \<Rightarrow> nat list" where
  "md5_digest bs =
     (case foldl md5_block (0x67452301, 0xefcdab89, 0x98badcfe, 0x10325476)
             (md5_blocks (le_words (md5_pad bs))) of
        (a, b, c, d) \<Rightarrow> le_bytes a @ le_bytes b @ le_bytes c @ le_bytes d)"

definition hex_digit :: "nat \<Rightarrow> char" where
  "hex_digit n = ''0123456789abcdef'' ! n"

definition hex_byte :: "nat \<Rightarrow> string" where
  "hex_byte b = [hex_digit (b div 16), hex_digit (b mod 16)]"

definition encode :: "string \<Rightarrow> nat list" where
  \<comment> \<open>\<open>str.encode()\<close>: UTF-8 of code points below 256\<close>
  "encode s =
     concat (map (\<lambda>c. let n = (of_char c :: nat)
                      in if n < 128 then [n] else [192 + n div 64, 128 + n mod 64]) s)"

definition md5_hexdigest :: "string \<Rightarrow> string" where
  \<comment> \<open>\<open>hashlib.md5(match.encode()).hexdigest()\<close>\<close>
  "md5_hexdigest s = concat (map hex_byte (md5_digest (encode s)))"

section \<open>The program\<close>

subsection \<open>Inline markup\<close>

definition bold_pass :: "string \<Rightarrow> string" where
  "bold_pass text = re_sub_pair CHR ''*'' ''<b>'' ''</b>'' text"

definition emphasis_pass :: "string \<Rightarrow> string" where
  "emphasis_pass text = re_sub_pair CHR ''_'' ''<em>'' ''</em>'' text"

definition md5_pass :: "string \<Rightarrow> string" where
  "md5_pass text =
     foldl (\<lambda>text match. str_replace (''[['' @ match @ '']]'') (md5_hexdigest match) text)
       text (re_findall CHR ''['' CHR '']'' text)"

definition remove_c :: "string \<Rightarrow> string" where
  \<comment> \<open>\<open>re.sub(r'[cC]', '', match)\<close>\<close>
  "remove_c match = filter (\<lambda>x. x \<noteq> CHR ''c'' \<and> x \<noteq> CHR ''C'') match"

definition remove_c_pass :: "string \<Rightarrow> string" where
  "remove_c_pass text =
     foldl (\<lambda>text match. str_replace (''(('' @ match @ ''))'') (remove_c match) text)
       text (re_findall CHR ''('' CHR '')'' text)"

definition process_inline_markup :: "string \<Rightarrow> string" where
  "process_inline_markup text = remove_c_pass (md5_pass (emphasis_pass (bold_pass text)))"

subsection \<open>Block renderers\<close>

datatype error = IndexError

definition convert_heading :: "string \<Rightarrow> error + string" where
  \<comment> \<open>\<open>line.split()[0]\<close> raises on a line with no word\<close>
  "convert_heading line =
     (case split_ws line of
        [] \<Rightarrow> Inl IndexError
      | w # _ \<Rightarrow>
          let level = length w;
              text = strip_ws (lstrip_chars ''#'' line)
          in Inr (''<h'' @ str_nat level @ ''>'' @ text @ ''</h'' @ str_nat level @ ''>''))"

definition convert_unordered_list :: "string list \<Rightarrow> string" where
  "convert_unordered_list lines =
     (let items = map (\<lambda>line. strip_ws (lstrip_chars ''- '' line)) lines;
          html_items = map (\<lambda>item. ''<li>'' @ process_inline_markup item @ ''</li>'') items
      in ''<ul>\<newline>'' @ str_join ''\<newline>'' html_items @ ''\<newline></ul>'')"

definition convert_ordered_list :: "string list \<Rightarrow> string" where
  "convert_ordered_list lines =
     (let items = map (\<lambda>line. strip_ws (lstrip_chars ''* '' line)) lines;
          html_items = map (\<lambda>item. ''<li>'' @ process_inline_markup item @ ''</li>'') items
      in ''<ol>\<newline>'' @ str_join ''\<newline>'' html_items @ ''\<newline></ol>'')"

definition convert_paragraph :: "string list \<Rightarrow> string" where
  "convert_paragraph lines =
     (let processed_lines =
            map (\<lambda>(i, line).
                   let line' = process_inline_markup line
                   in if int i < int (length lines) - 1 \<and> lines ! (i + 1) \<noteq> []
                      then line' @ ''<br/>'' else line')
                (enumerate 0 lines)
      in ''<p>\<newline>'' @ str_join ''\<newline>'' processed_lines @ ''\<newline></p>'')"

subsection \<open>The scanner of main\<close>

datatype block_type = T_ul | T_ol | T_p

record scan_state =
  html_lines :: "string list"
  current_block :: "string list"
  current_type :: "block_type option"

definition init_state :: scan_state where
  "init_state = \<lparr>html_lines = [], current_block = [], current_type = None\<rparr>"

definition process_line :: "scan_state \<Rightarrow> string \<Rightarrow> error + scan_state" where
  \<comment> \<open>the body of the loop over the lines\<close>
  "process_line st raw =
     (let line = rstrip_ws raw in
      if startswith ''#'' line then
        (let st1 =
               (if current_block st \<noteq> [] then
                  st\<lparr>html_lines := html_lines st @
                       (if current_type st = Some T_ul then [convert_unordered_list (current_block st)]
                        else if current_type st = Some T_ol then [convert_ordered_list (current_block st)]
                        else if current_type st = Some T_p then [convert_paragraph (current_block st)]
                        else []),
                     current_block := []\<rparr>
                else st)
         in case convert_heading line of
              Inl e \<Rightarrow> Inl e
            | Inr h \<Rightarrow> Inr (st1\<lparr>html_lines := html_lines st1 @ [h]\<rparr>))
      else if startswith ''- '' line then
        (let st1 =
               (if current_type st \<noteq> Some T_ul \<and> current_block st \<noteq> [] then
                  st\<lparr>html_lines := html_lines st @
                       (if current_type st = Some T_p then [convert_paragraph (current_block st)]
                        else if current_type st = Some T_ol then [convert_ordered_list (current_block st)]
                        else []),
                     current_block := []\<rparr>
                else st)
         in Inr (st1\<lparr>current_type := Some T_ul, current_block := current_block st1 @ [line]\<rparr>))
      else if startswith ''* '' line then
        (let st1 =
               (if current_type st \<noteq> Some T_ol \<and> current_block st \<noteq> [] then
                  st\<lparr>html_lines := html_lines st @
                       (if current_type st = Some T_p then [convert_paragraph (current_block st)]
                        else if current_type st = Some T_ul then [convert_unordered_list (current_block st)]
                        else []),
                     current_block := []\<rparr>
                else st)
         in Inr (st1\<lparr>current_type := Some T_ol, current_block := current_block st1 @ [line]\<rparr>))
      else if line \<noteq> [] then
        (let st1 =
               (if current_type st \<noteq> Some T_p \<and> current_block st \<noteq> [] then
                  st\<lparr>html_lines := html_lines st @
                       (if current_type st = Some T_ul then [convert_unordered_list (current_block st)]
                        else if current_type st = Some T_ol then [convert_ordered_list (current_block st)]
                        else []),
                     current_block := []\<rparr>
                else st)
         in Inr (st1\<lparr>current_type := Some T_p, current_block := current_block st1 @ [line]\<rparr>))
      else if current_block st \<noteq> [] then
        Inr (st\<lparr>html_lines := html_lines st @
                  (if current_type st = Some T_ul then [convert_unordered_list (current_block st)]
                   else if current_type st = Some T_ol then [convert_ordered_list (current_block st)]
                   else if current_type st = Some T_p then [convert_paragraph (current_block st)]
                   else []),
                current_block := [], current_type := None\<rparr>)
      else Inr st)"

fun process_lines :: "scan_state \<Rightarrow> string list \<Rightarrow> error + scan_state" where
  \<comment> \<open>\<open>for line in lines\<close>; an exception ends the loop\<close>
  "process_lines st [] = Inr st"
| "process_lines st (raw # raws) =
     (case process_line st raw of
        Inl e \<Rightarrow> Inl e
      | Inr st' \<Rightarrow> process_lines st' raws)"

definition last_block :: "scan_state \<Rightarrow> string list" where
  \<comment> \<open>"Handle last block if exists": the fragments after the loop\<close>
  "last_block st =
     (if current_block st \<noteq> [] then
        html_lines st @
          (if current_type st = Some T_ul then [convert_unordered_list (current_block st)]
           else if current_type st = Some T_ol then [convert_ordered_list (current_block st)]
           else if current_type st = Some T_p then [convert_paragraph (current_block st)]
           else [])
      else html_lines st)"

definition main_fragments :: "string list \<Rightarrow> error + string list" where
  \<comment> \<open>\<open>html_lines\<close> when main writes the output file\<close>
  "main_fragments lines =
     (case process_lines init_state lines of
        Inl e \<Rightarrow> Inl e
      | Inr st \<Rightarrow> Inr (last_block st))"

definition main_output :: "string list \<Rightarrow> error + string" where
  \<comment> \<open>the text main writes, for the lines \<open>readlines\<close> returned\<close>
  "main_output lines =
     (case main_fragments lines of
        Inl e \<Rightarrow> Inl e
      | Inr frags \<Rightarrow> Inr (str_join ''\<newline>'' frags))"

section \<open>The block classifier of the specification\<close>

text \<open>
  The specification describes the scanner as a state machine over the kinds of lines: a
  block is open or not (state NONE), a line of the open block's kind is appended, a line
  of another kind closes the open block and opens a new one, a heading closes the open
  block and is a block of its own, and a blank line or the end of the input closes the
  open block. \<open>spec_blocks\<close> follows these words; it keeps no type variable apart
  from the open block. \<open>classify\<close> is the chain of tests of the loop, which is also
  the classification rule of the specification, on the line stripped on the right.
\<close>

datatype block =
  Heading string | UnorderedList "string list" | OrderedList "string list" | Paragraph "string list"

datatype line_kind = HeadingLine | BlockLine block_type | BlankLine

definition classify :: "string \<Rightarrow> line_kind" where
  "classify line =
     (if startswith ''#'' line then HeadingLine
      else if startswith ''- '' line then BlockLine T_ul
      else if startswith ''* '' line then BlockLine T_ol
      else if line \<noteq> [] then BlockLine T_p
      else BlankLine)"

fun mk_block :: "block_type \<Rightarrow> string list \<Rightarrow> block" where
  "mk_block T_ul ls = UnorderedList ls"
| "mk_block T_ol ls = OrderedList ls"
| "mk_block T_p ls = Paragraph ls"

fun spec_close :: "(block_type \<times> string list) option \<Rightarrow> block list" where
  "spec_close None = []"
| "spec_close (Some (t, ls)) = [mk_block t ls]"

fun spec_blocks_from :: "(block_type \<times> string list) option \<Rightarrow> string list \<Rightarrow> block list" where
  "spec_blocks_from opn [] = spec_close opn"
| "spec_blocks_from opn (raw # raws) =
     (let line = rstrip_ws raw in
      case classify line of
        HeadingLine \<Rightarrow> spec_close opn @ Heading line # spec_blocks_from None raws
      | BlankLine \<Rightarrow> spec_close opn @ spec_blocks_from None raws
      | BlockLine t \<Rightarrow>
          (case opn of
             None \<Rightarrow> spec_blocks_from (Some (t, [line])) raws
           | Some (t', ls) \<Rightarrow>
               if t' = t then spec_blocks_from (Some (t, ls @ [line])) raws
               else mk_block t' ls # spec_blocks_from (Some (t, [line])) raws))"

definition spec_blocks :: "string list \<Rightarrow> block list" where
  "spec_blocks lines = spec_blocks_from None lines"

definition render_heading :: "string \<Rightarrow> string" where
  "render_heading line = (case convert_heading line of Inl e \<Rightarrow> [] | Inr h \<Rightarrow> h)"

fun render_block :: "block \<Rightarrow> string" where
  "render_block (Heading line) = render_heading line"
| "render_block (UnorderedList ls) = convert_unordered_list ls"
| "render_block (OrderedList ls) = convert_ordered_list ls"
| "render_block (Paragraph ls) = convert_paragraph ls"

fun block_ok :: "block \<Rightarrow> bool" where
  "block_ok (Heading line) = (classify line = HeadingLine)"
| "block_ok (UnorderedList ls) = (ls \<noteq> [] \<and> list_all (\<lambda>l. classify l = BlockLine T_ul) ls)"
| "block_ok (OrderedList ls) = (ls \<noteq> [] \<and> list_all (\<lambda>l. classify l = BlockLine T_ol) ls)"
| "block_ok (Paragraph ls) = (ls \<noteq> [] \<and> list_all (\<lambda>l. classify l = BlockLine T_p) ls)"

fun open_ok :: "(block_type \<times> string list) option \<Rightarrow> bool" where
  "open_ok None = True"
| "open_ok (Some (t, ls)) = (ls \<noteq> [] \<and> list_all (\<lambda>l. classify l = BlockLine t) ls)"


text \<open>
  The relation between the state of the loop and the open block of the state machine:
  when the accumulator is empty no block is open, whatever \<open>current_type\<close> still
  holds; otherwise the accumulator and the type are the open block.
\<close>

definition sim :: "scan_state \<Rightarrow> (block_type \<times> string list) option \<Rightarrow> bool" where
  "sim st opn =
     (case opn of
        None \<Rightarrow> current_block st = []
      | Some (t, ls) \<Rightarrow> ls \<noteq> [] \<and> current_block st = ls \<and> current_type st = Some t)"

section \<open>Spans of the inline rewriter\<close>













section \<open>Evaluation\<close>

declare split_ws.simps [simp del]
declare str_nat.simps [simp del]
declare str_replace.simps [simp del]
declare re_sub_pair.simps [simp del]
declare re_findall.simps [simp del]
declare md5_blocks.simps [simp del]

lemmas text_defs =
  isspace_def strip_ws_def lstrip_ws_def rstrip_ws_def lstrip_chars_def digit_char_def
  startswith_def split_ws.simps str_nat.simps str_replace.simps

lemmas inline_defs =
  process_inline_markup_def bold_pass_def emphasis_pass_def md5_pass_def remove_c_pass_def
  remove_c_def match_pair_def match_lazy_def re_sub_pair.simps re_findall.simps

lemmas scan_defs =
  main_output_def main_fragments_def init_state_def last_block_def process_line_def

section \<open>Headings\<close>

text \<open>
  C1. The specification has the heading renderer emit \<open><hN>text</hN>\<close> with \<open>N\<close>
  the number of leading \<open>#\<close> characters. The code takes the length of the first word of the line
  instead (its comment reads "Count the number of #"), so a heading whose text follows
  the \<open>#\<close> without a space gets the wrong level: the line \<open>#Title\<close> is rendered as a
  level 6 heading, by the renderer and by the whole program.
\<close>

theorem convert_heading_counts_first_word:
  "convert_heading ''#Title'' = Inr ''<h6>Title</h6>''
   \<and> main_output [''#Title''] = Inr ''<h6>Title</h6>''"
  by (simp add: scan_defs convert_heading_def text_defs)

section \<open>Lists\<close>

text \<open>
  C2. The specification has the list renderers strip exactly the two characters of the
  marker.
  The code calls \<open>lstrip\<close> with the marker, which removes every leading character that
  is one of the marker's two characters: the item \<open>-5 degrees\<close> loses its sign, and
  the item \<open>**bold** item\<close> loses its opening \<open>**\<close>, so that the inline rewriter no
  longer finds the bold span.
\<close>

theorem convert_list_strips_marker_characters:
  "convert_unordered_list [''- -5 degrees''] = ''<ul>\<newline><li>5 degrees</li>\<newline></ul>''
   \<and> convert_ordered_list [''* **bold** item''] = ''<ol>\<newline><li>bold** item</li>\<newline></ol>''"
  by (simp add: convert_unordered_list_def convert_ordered_list_def text_defs inline_defs)

section \<open>The loop refines the block classifier\<close>

lemma startswith_Cons: "startswith (c # cs) s = (\<exists>t. s = c # t \<and> startswith cs t)"
  by (cases s) (auto simp: startswith_def)

lemma startswith_Nil [simp]: "startswith [] s"
  by (simp add: startswith_def)

lemma hash_not_space: "\<not> isspace CHR ''#''"
  by (simp add: isspace_def)

lemma split_ws_heading: "startswith ''#'' line \<Longrightarrow> split_ws line \<noteq> []"
  by (subst split_ws.simps) (auto simp: startswith_Cons hash_not_space Let_def)

lemma convert_heading_total:
  "startswith ''#'' line \<Longrightarrow> convert_heading line = Inr (render_heading line)"
  using split_ws_heading [of line]
  by (auto simp: convert_heading_def render_heading_def Let_def split: list.splits)

text \<open>
  Where a space follows the run of \<open>#\<close>, the first word of the line is that run,
  and the level is the number of \<open>#\<close>.
\<close>

lemma convert_heading_spaced:
  assumes "0 < n"
  shows "convert_heading (replicate n CHR ''#'' @ CHR '' '' # rest)
           = Inr (''<h'' @ str_nat n @ ''>'' @ strip_ws rest @ ''</h'' @ str_nat n @ ''>'')"
proof -
  let ?line = "replicate n CHR ''#'' @ CHR '' '' # rest"
  have sp: "isspace CHR '' ''" by (simp add: isspace_def)
  from assms obtain k where n: "n = Suc k" by (cases n) auto
  have "dropWhile isspace ?line = ?line"
    using hash_not_space by (simp add: n)
  moreover have "takeWhile (\<lambda>c. \<not> isspace c) ?line = replicate n CHR ''#''"
  proof -
    have "takeWhile (\<lambda>c. \<not> isspace c) ?line
            = replicate n CHR ''#'' @ takeWhile (\<lambda>c. \<not> isspace c) (CHR '' '' # rest)"
      by (rule takeWhile_append2) (simp add: hash_not_space)
    with sp show ?thesis by simp
  qed
  ultimately have w: "split_ws ?line
      = replicate n CHR ''#'' # split_ws (dropWhile (\<lambda>c. \<not> isspace c) ?line)"
    by (subst split_ws.simps) (simp add: n)
  have "lstrip_chars ''#'' ?line = CHR '' '' # rest"
  proof -
    have "dropWhile (\<lambda>c. c \<in> set ''#'') ?line
            = dropWhile (\<lambda>c. c \<in> set ''#'') (CHR '' '' # rest)"
      by (rule dropWhile_append2) simp
    then show ?thesis by (simp add: lstrip_chars_def)
  qed
  moreover have "strip_ws (CHR '' '' # rest) = strip_ws rest"
    using sp by (simp add: strip_ws_def lstrip_ws_def)
  ultimately show ?thesis
    using w by (simp add: convert_heading_def)
qed

lemma process_line_sim:
  assumes "sim st opn"
  shows "\<exists>st' new opn'. process_line st raw = Inr st'
           \<and> html_lines st' = html_lines st @ map render_block new
           \<and> sim st' opn'
           \<and> spec_blocks_from opn (raw # raws) = new @ spec_blocks_from opn' raws"
proof (cases "classify (rstrip_ws raw)")
  case HeadingLine
  then have h: "startswith ''#'' (rstrip_ws raw)"
    by (auto simp: classify_def split: if_splits)
  show ?thesis
  proof (cases opn)
    case None
    with assms h HeadingLine show ?thesis
      apply (intro exI [of _ "st\<lparr>html_lines := html_lines st @ [render_heading (rstrip_ws raw)]\<rparr>"]
                   exI [of _ "[Heading (rstrip_ws raw)]"] exI [of _ None])
      by (simp add: sim_def process_line_def convert_heading_total)
  next
    case (Some b)
    obtain t ls where b: "b = (t, ls)" by (cases b)
    with assms h HeadingLine Some show ?thesis
      apply (intro exI [of _ "st\<lparr>html_lines := html_lines st @ [render_block (mk_block t ls), render_heading (rstrip_ws raw)], current_block := []\<rparr>"]
                   exI [of _ "[mk_block t ls, Heading (rstrip_ws raw)]"] exI [of _ None])
      by (cases t) (simp_all add: sim_def process_line_def convert_heading_total)
  qed
next
  case (BlockLine t)
  then have nh: "\<not> startswith ''#'' (rstrip_ws raw)"
    by (auto simp: classify_def split: if_splits)
  show ?thesis
  proof (cases opn)
    case None
    with assms nh BlockLine show ?thesis
      apply (intro exI [of _ "st\<lparr>current_type := Some t, current_block := [rstrip_ws raw]\<rparr>"]
                   exI [of _ "[]"] exI [of _ "Some (t, [rstrip_ws raw])"])
      by (cases t) (auto simp: sim_def process_line_def classify_def split: if_splits)
  next
    case (Some b)
    obtain t' ls where b: "b = (t', ls)" by (cases b)
    show ?thesis
    proof (cases "t' = t")
      case True
      with assms nh BlockLine Some b show ?thesis
        apply (intro exI [of _ "st\<lparr>current_type := Some t, current_block := ls @ [rstrip_ws raw]\<rparr>"]
                     exI [of _ "[]"] exI [of _ "Some (t, ls @ [rstrip_ws raw])"])
        by (cases t) (auto simp: sim_def process_line_def classify_def split: if_splits)
    next
      case False
      with assms nh BlockLine Some b show ?thesis
        apply (intro exI [of _ "st\<lparr>html_lines := html_lines st @ [render_block (mk_block t' ls)], current_type := Some t, current_block := [rstrip_ws raw]\<rparr>"]
                     exI [of _ "[mk_block t' ls]"] exI [of _ "Some (t, [rstrip_ws raw])"])
        by (cases t; cases t') (auto simp: sim_def process_line_def classify_def split: if_splits)
    qed
  qed
next
  case BlankLine
  then have nh: "rstrip_ws raw = []"
    by (auto simp: classify_def split: if_splits)
  show ?thesis
  proof (cases opn)
    case None
    with assms nh BlankLine show ?thesis
      apply (intro exI [of _ st] exI [of _ "[]"] exI [of _ None])
      by (simp add: sim_def process_line_def startswith_def)
  next
    case (Some b)
    obtain t ls where b: "b = (t, ls)" by (cases b)
    with assms nh BlankLine Some show ?thesis
      apply (intro exI [of _ "st\<lparr>html_lines := html_lines st @ [render_block (mk_block t ls)], current_block := [], current_type := None\<rparr>"]
                   exI [of _ "[mk_block t ls]"] exI [of _ None])
      by (cases t) (simp_all add: sim_def process_line_def startswith_def)
  qed
qed

lemma process_lines_sim:
  "sim st opn \<Longrightarrow>
     \<exists>st'. process_lines st raws = Inr st'
        \<and> last_block st' = html_lines st @ map render_block (spec_blocks_from opn raws)"
proof (induction raws arbitrary: st opn)
  case Nil
  show ?case
  proof (cases opn)
    case None
    with Nil show ?thesis by (simp add: sim_def last_block_def)
  next
    case (Some b)
    obtain t ls where "b = (t, ls)" by (cases b)
    with Nil Some show ?thesis
      by (cases t) (simp_all add: sim_def last_block_def)
  qed
next
  case (Cons raw raws)
  from process_line_sim [OF Cons.prems, of raw raws]
  obtain st1 new opn1 where
    1: "process_line st raw = Inr st1" and
    2: "html_lines st1 = html_lines st @ map render_block new" and
    3: "sim st1 opn1" and
    4: "spec_blocks_from opn (raw # raws) = new @ spec_blocks_from opn1 raws"
    by blast
  from Cons.IH [OF 3] obtain st' where
    5: "process_lines st1 raws = Inr st'" and
    6: "last_block st' = html_lines st1 @ map render_block (spec_blocks_from opn1 raws)"
    by blast
  show ?case
    using 1 2 4 5 6 by simp
qed

lemma main_fragments_blocks:
  "main_fragments lines = Inr (map render_block (spec_blocks lines))"
proof -
  have "sim init_state None"
    by (simp add: sim_def init_state_def)
  from process_lines_sim [OF this, of lines] show ?thesis
    by (auto simp: main_fragments_def spec_blocks_def init_state_def)
qed

section \<open>Runs of lines of one kind\<close>

lemma blocks_from_step:
  "\<exists>new opn'. \<forall>raws. spec_blocks_from opn (raw # raws) = new @ spec_blocks_from opn' raws"
proof (cases "classify (rstrip_ws raw)")
  case HeadingLine
  then show ?thesis
    by (intro exI [of _ "spec_close opn @ [Heading (rstrip_ws raw)]"] exI [of _ None]) simp
next
  case (BlockLine t)
  show ?thesis
  proof (cases opn)
    case None
    with BlockLine show ?thesis
      by (intro exI [of _ "[]"] exI [of _ "Some (t, [rstrip_ws raw])"]) simp
  next
    case (Some b)
    obtain t' ls where b: "b = (t', ls)" by (cases b)
    show ?thesis
    proof (cases "t' = t")
      case True
      with BlockLine Some b show ?thesis
        by (intro exI [of _ "[]"] exI [of _ "Some (t, ls @ [rstrip_ws raw])"]) simp
    next
      case False
      with BlockLine Some b show ?thesis
        by (intro exI [of _ "[mk_block t' ls]"] exI [of _ "Some (t, [rstrip_ws raw])"]) simp
    qed
  qed
next
  case BlankLine
  then show ?thesis
    by (intro exI [of _ "spec_close opn"] exI [of _ None]) simp
qed

lemma blocks_from_run:
  "\<forall>l\<in>set ps. classify (rstrip_ws l) = BlockLine t \<Longrightarrow>
   spec_blocks_from (Some (t, ls)) (ps @ rest) = spec_blocks_from (Some (t, ls @ map rstrip_ws ps)) rest"
  by (induction ps arbitrary: ls) simp_all

lemma blocks_from_run_start:
  assumes "ps \<noteq> []" and "\<forall>l\<in>set ps. classify (rstrip_ws l) = BlockLine t"
  shows "spec_blocks_from None (ps @ rest) = spec_blocks_from (Some (t, map rstrip_ws ps)) rest"
proof -
  from assms obtain q qs where ps: "ps = q # qs" by (cases ps) auto
  with assms have "spec_blocks_from None (ps @ rest) = spec_blocks_from (Some (t, [rstrip_ws q])) (qs @ rest)"
    by simp
  also have "\<dots> = spec_blocks_from (Some (t, [rstrip_ws q] @ map rstrip_ws qs)) rest"
    using assms ps by (intro blocks_from_run) simp
  finally show ?thesis using ps by simp
qed

lemma blocks_from_close:
  assumes "rest = [] \<or> classify (rstrip_ws (hd rest)) \<noteq> BlockLine t"
  shows "spec_blocks_from (Some (t, ls)) rest = mk_block t ls # spec_blocks_from None rest"
proof (cases rest)
  case Nil
  then show ?thesis by simp
next
  case (Cons r rs)
  with assms have "classify (rstrip_ws r) \<noteq> BlockLine t" by simp
  with Cons show ?thesis
    by (cases "classify (rstrip_ws r)") simp_all
qed

lemma blocks_from_prefix:
  assumes "pre \<noteq> []" and "classify (rstrip_ws (last pre)) \<noteq> BlockLine t"
    and "xs \<noteq> []" and "classify (rstrip_ws (hd xs)) = BlockLine t"
  shows "spec_blocks_from opn (pre @ xs) = spec_blocks_from opn pre @ spec_blocks_from None xs"
  using assms
proof (induction pre arbitrary: opn)
  case Nil
  then show ?case by simp
next
  case (Cons p pre)
  show ?case
  proof (cases "pre = []")
    case True
    obtain x xs' where xs: "xs = x # xs'" using Cons.prems(3) by (cases xs) auto
    have x: "classify (rstrip_ws x) = BlockLine t" using Cons.prems(4) xs by simp
    have p: "classify (rstrip_ws p) \<noteq> BlockLine t" using Cons.prems(2) True by simp
    show ?thesis
    proof (cases "classify (rstrip_ws p)")
      case HeadingLine
      with True show ?thesis by simp
    next
      case BlankLine
      with True show ?thesis by simp
    next
      case (BlockLine t')
      with p have ne: "t' \<noteq> t" by simp
      show ?thesis
      proof (cases opn)
        case None
        with BlockLine True xs x ne show ?thesis by simp
      next
        case (Some b)
        obtain t'' ls where "b = (t'', ls)" by (cases b)
        with Some BlockLine True xs x ne show ?thesis by (simp add: Let_def)
      qed
    qed
  next
    case False
    from blocks_from_step [of opn p] obtain new opn' where
      step: "\<And>raws. spec_blocks_from opn (p # raws) = new @ spec_blocks_from opn' raws" by blast
    have "spec_blocks_from opn' (pre @ xs) = spec_blocks_from opn' pre @ spec_blocks_from None xs"
      using False Cons.prems by (intro Cons.IH) simp_all
    then show ?thesis
      using step [of "pre @ xs"] step [of pre] by simp
  qed
qed

lemma blocks_of_run:
  assumes "ps \<noteq> []" and "\<forall>l\<in>set ps. classify (rstrip_ws l) = BlockLine t"
    and "pre = [] \<or> classify (rstrip_ws (last pre)) \<noteq> BlockLine t"
    and "post = [] \<or> classify (rstrip_ws (hd post)) \<noteq> BlockLine t"
  shows "spec_blocks (pre @ ps @ post) = spec_blocks pre @ mk_block t (map rstrip_ws ps) # spec_blocks post"
proof -
  have hd: "classify (rstrip_ws (hd (ps @ post))) = BlockLine t"
    using assms(1,2) by (cases ps) auto
  have "spec_blocks_from None (pre @ ps @ post) = spec_blocks_from None pre @ spec_blocks_from None (ps @ post)"
  proof (cases "pre = []")
    case True
    then show ?thesis by simp
  next
    case False
    with assms(3) have "classify (rstrip_ws (last pre)) \<noteq> BlockLine t" by simp
    from blocks_from_prefix [OF False this _ hd] assms(1) show ?thesis by simp
  qed
  also have "spec_blocks_from None (ps @ post) = spec_blocks_from (Some (t, map rstrip_ws ps)) post"
    using assms(1,2) by (rule blocks_from_run_start)
  also have "\<dots> = mk_block t (map rstrip_ws ps) # spec_blocks_from None post"
    using assms(4) by (rule blocks_from_close)
  finally show ?thesis by (simp add: spec_blocks_def)
qed

lemma convert_paragraph_index:
  "convert_paragraph ls =
     ''<p>\<newline>'' @
     str_join ''\<newline>''
       (map (\<lambda>i. process_inline_markup (ls ! i) @
                  (if i + 1 < length ls \<and> ls ! (i + 1) \<noteq> [] then ''<br/>'' else []))
            [0..<length ls]) @
     ''\<newline></p>''"
proof -
  have "map (\<lambda>(i, line).
               let line' = process_inline_markup line
               in if int i < int (length ls) - 1 \<and> ls ! (i + 1) \<noteq> []
                  then line' @ ''<br/>'' else line')
            (enumerate 0 ls)
        = map (\<lambda>i. process_inline_markup (ls ! i) @
                  (if i + 1 < length ls \<and> ls ! (i + 1) \<noteq> [] then ''<br/>'' else []))
            [0..<length ls]"
    by (rule nth_equalityI) (auto simp: nth_enumerate_eq Let_def)
  then show ?thesis
    by (simp add: convert_paragraph_def)
qed

section \<open>Blocks are never empty\<close>

lemma block_ok_mk_block:
  "block_ok (mk_block t ls) = (ls \<noteq> [] \<and> list_all (\<lambda>l. classify l = BlockLine t) ls)"
  by (cases t) simp_all

lemma close_block_ok: "open_ok opn \<Longrightarrow> list_all block_ok (spec_close opn)"
  by (cases opn) (auto simp: block_ok_mk_block)

lemma blocks_from_ok: "open_ok opn \<Longrightarrow> list_all block_ok (spec_blocks_from opn raws)"
proof (induction raws arbitrary: opn)
  case Nil
  then show ?case by (simp add: close_block_ok)
next
  case (Cons raw raws)
  have none: "list_all block_ok (spec_blocks_from None raws)"
    by (rule Cons.IH) simp
  show ?case
  proof (cases "classify (rstrip_ws raw)")
    case HeadingLine
    with Cons.prems none show ?thesis by (simp add: close_block_ok)
  next
    case BlankLine
    with Cons.prems none show ?thesis by (simp add: close_block_ok)
  next
    case (BlockLine t)
    have new: "list_all block_ok (spec_blocks_from (Some (t, [rstrip_ws raw])) raws)"
      using BlockLine by (intro Cons.IH) simp
    show ?thesis
    proof (cases opn)
      case None
      with BlockLine new show ?thesis by simp
    next
      case (Some b)
      obtain t' ls where b: "b = (t', ls)" by (cases b)
      show ?thesis
      proof (cases "t' = t")
        case True
        have "list_all block_ok (spec_blocks_from (Some (t, ls @ [rstrip_ws raw])) raws)"
          using BlockLine Cons.prems Some b True by (intro Cons.IH) simp
        with BlockLine Some b True show ?thesis by simp
      next
        case False
        with BlockLine Some b new Cons.prems show ?thesis
          by (simp add: block_ok_mk_block)
      qed
    qed
  qed
qed

lemma blocks_of_ok: "list_all block_ok (spec_blocks lines)"
  by (simp add: spec_blocks_def blocks_from_ok)

lemma classify_block_line_nonempty: "classify l = BlockLine t \<Longrightarrow> l \<noteq> []"
  by (auto simp: classify_def startswith_def split: if_splits)





lemma str_join_Cons: "str_join sep (x # xs) = x @ (if xs = [] then [] else sep @ str_join sep xs)"
  by (cases xs) simp_all

lemma render_heading_form:
  assumes "classify line = HeadingLine"
  shows "\<exists>level text. render_heading line = ''<h'' @ level @ ''>'' @ text @ ''</h'' @ level @ ''>''"
proof -
  from assms have h: "startswith ''#'' line"
    by (auto simp: classify_def split: if_splits)
  show ?thesis
  proof (cases "split_ws line")
    case Nil
    with split_ws_heading [OF h] show ?thesis by simp
  next
    case (Cons w ws)
    then have "render_heading line =
        ''<h'' @ str_nat (length w) @ ''>'' @ strip_ws (lstrip_chars ''#'' line) @
        ''</h'' @ str_nat (length w) @ ''>''"
      by (simp add: render_heading_def convert_heading_def Let_def)
    then show ?thesis by blast
  qed
qed



lemma process_lines_append:
  "process_lines st (xs @ ys) =
     (case process_lines st xs of Inl e \<Rightarrow> Inl e | Inr st' \<Rightarrow> process_lines st' ys)"
  by (induction xs arbitrary: st) (auto split: sum.splits)

lemma process_lines_reach:
  "sim st opn \<Longrightarrow> \<exists>st' opn'. process_lines st xs = Inr st' \<and> sim st' opn'"
proof (induction xs arbitrary: st opn)
  case Nil
  then show ?case by auto
next
  case (Cons x xs)
  from process_line_sim [OF Cons.prems, of x "[]"] obtain st1 opn1 where
    "process_line st x = Inr st1" "sim st1 opn1" by blast
  with Cons.IH [OF this(2)] show ?case by auto
qed

lemma process_line_total: "sim st opn \<Longrightarrow> \<exists>st'. process_line st raw = Inr st'"
  using process_line_sim [of st opn raw "[]"] by blast

lemma process_line_paragraph:
  assumes "classify (rstrip_ws raw) = BlockLine T_p" and "process_line st raw = Inr st'"
  shows "current_type st' = Some T_p \<and> current_block st' \<noteq> []"
  using assms
  by (auto simp: process_line_def classify_def Let_def split: if_splits)

lemma process_line_blank:
  assumes "rstrip_ws raw = []" and "process_line st raw = Inr st'"
  shows "current_block st' = [] \<and> (current_block st \<noteq> [] \<longrightarrow> current_type st' = None)"
  using assms
  by (auto simp: process_line_def startswith_def Let_def split: if_splits)

lemma process_line_no_empty:
  assumes "[] \<notin> set (current_block st)" and "process_line st raw = Inr st'"
  shows "[] \<notin> set (current_block st')"
  using assms
  by (auto simp: process_line_def startswith_def Let_def split: if_splits sum.splits)

lemma process_lines_no_empty:
  "[] \<notin> set (current_block st) \<Longrightarrow> process_lines st raws = Inr st' \<Longrightarrow>
   [] \<notin> set (current_block st')"
proof (induction raws arbitrary: st)
  case Nil
  then show ?case by simp
next
  case (Cons raw raws)
  from Cons.prems(2) obtain st1 where
    1: "process_line st raw = Inr st1" and 2: "process_lines st1 raws = Inr st'"
    by (auto split: sum.splits)
  from process_line_no_empty [OF Cons.prems(1) 1] have "[] \<notin> set (current_block st1)" .
  from Cons.IH [OF this 2] show ?case .
qed

lemma convert_paragraph_breaks:
  assumes "ls \<noteq> []" and "[] \<notin> set ls"
  shows "convert_paragraph ls =
           ''<p>\<newline>'' @
           str_join ''\<newline>''
             (map (\<lambda>l. process_inline_markup l @ ''<br/>'') (butlast ls)
              @ [process_inline_markup (last ls)]) @
           ''\<newline></p>''"
proof -
  have "map (\<lambda>i. process_inline_markup (ls ! i) @
                  (if i + 1 < length ls \<and> ls ! (i + 1) \<noteq> [] then ''<br/>'' else []))
            [0..<length ls]
        = map (\<lambda>l. process_inline_markup l @ ''<br/>'') (butlast ls)
              @ [process_inline_markup (last ls)]"
  proof (rule nth_equalityI)
    show "length (map (\<lambda>i. process_inline_markup (ls ! i) @
                  (if i + 1 < length ls \<and> ls ! (i + 1) \<noteq> [] then ''<br/>'' else []))
            [0..<length ls])
          = length (map (\<lambda>l. process_inline_markup l @ ''<br/>'') (butlast ls)
              @ [process_inline_markup (last ls)])"
      using assms(1) by simp
  next
    fix i
    assume "i < length (map (\<lambda>i. process_inline_markup (ls ! i) @
                  (if i + 1 < length ls \<and> ls ! (i + 1) \<noteq> [] then ''<br/>'' else []))
            [0..<length ls])"
    then have i: "i < length ls" by simp
    show "map (\<lambda>i. process_inline_markup (ls ! i) @
                  (if i + 1 < length ls \<and> ls ! (i + 1) \<noteq> [] then ''<br/>'' else []))
            [0..<length ls] ! i
          = (map (\<lambda>l. process_inline_markup l @ ''<br/>'') (butlast ls)
              @ [process_inline_markup (last ls)]) ! i"
    proof (cases "i + 1 < length ls")
      case True
      then have "ls ! (i + 1) \<in> set ls" by simp
      with assms(2) have "ls ! (i + 1) \<noteq> []" by metis
      moreover from True have "i < length ls - 1" by simp
      ultimately show ?thesis
        using True i by (simp add: nth_append nth_butlast)
    next
      case False
      with i have "i = length ls - 1" by simp
      with False i assms(1) show ?thesis
        by (simp add: nth_append last_conv_nth)
    qed
  qed
  then show ?thesis
    by (simp only: convert_paragraph_index [of ls])
qed

lemma process_line_closes:
  assumes "classify (rstrip_ws raw) = HeadingLine \<or> classify (rstrip_ws raw) = BlankLine"
    and "process_line st raw = Inr st'"
  shows "current_block st' = []"
  using assms
  by (auto simp: process_line_def classify_def Let_def split: if_splits sum.splits)

lemma render_block_not_empty_list:
  assumes "block_ok b"
  shows "render_block b \<noteq> convert_unordered_list [] \<and> render_block b \<noteq> convert_ordered_list []"
proof (cases b)
  case (Heading line)
  with assms render_heading_form [of line] show ?thesis
    by (auto simp: convert_unordered_list_def convert_ordered_list_def)
next
  case (UnorderedList ls)
  with assms obtain l ls' where "ls = l # ls'" by (cases ls) auto
  with UnorderedList show ?thesis
    by (simp add: convert_unordered_list_def convert_ordered_list_def str_join_Cons)
next
  case (OrderedList ls)
  with assms obtain l ls' where "ls = l # ls'" by (cases ls) auto
  with OrderedList show ?thesis
    by (simp add: convert_unordered_list_def convert_ordered_list_def str_join_Cons)
next
  case (Paragraph ls)
  then show ?thesis
    by (simp add: convert_unordered_list_def convert_ordered_list_def convert_paragraph_def)
qed

section \<open>Paragraphs\<close>

text \<open>
  C3. A maximal run of paragraph lines (non-empty after stripping, with no heading or list
  marker), between any lines \<open>pre\<close> and \<open>post\<close>, is rendered as one \<open><p>\<close>
  block that stands between the fragments of \<open>pre\<close> and those of \<open>post\<close>; in
  the block every line is rewritten by the inline rewriter, the lines are joined by a
  newline, and \<open><br/>\<close> follows line \<open>i\<close> exactly when \<open>i\<close> is not the last
  line and the raw line \<open>i + 1\<close> is not empty.
\<close>

theorem paragraph_run_is_one_block:
  assumes "ps \<noteq> []" and "\<forall>l\<in>set ps. classify (rstrip_ws l) = BlockLine T_p"
    and "pre = [] \<or> classify (rstrip_ws (last pre)) \<noteq> BlockLine T_p"
    and "post = [] \<or> classify (rstrip_ws (hd post)) \<noteq> BlockLine T_p"
  shows "(\<exists>before after.
            main_fragments pre = Inr before \<and> main_fragments post = Inr after \<and>
            main_fragments (pre @ ps @ post)
              = Inr (before @ [convert_paragraph (map rstrip_ws ps)] @ after))
         \<and> convert_paragraph (map rstrip_ws ps) =
             ''<p>\<newline>'' @
             str_join ''\<newline>''
               (map (\<lambda>i. process_inline_markup (rstrip_ws (ps ! i)) @
                          (if i + 1 < length ps \<and> rstrip_ws (ps ! (i + 1)) \<noteq> []
                           then ''<br/>'' else []))
                    [0..<length ps]) @
             ''\<newline></p>''"
proof
  show "\<exists>before after.
            main_fragments pre = Inr before \<and> main_fragments post = Inr after \<and>
            main_fragments (pre @ ps @ post)
              = Inr (before @ [convert_paragraph (map rstrip_ws ps)] @ after)"
    using blocks_of_run [OF assms]
    by (simp add: main_fragments_blocks)
next
  have "map (\<lambda>i. process_inline_markup (map rstrip_ws ps ! i) @
                  (if i + 1 < length (map rstrip_ws ps) \<and> map rstrip_ws ps ! (i + 1) \<noteq> []
                   then ''<br/>'' else []))
            [0..<length (map rstrip_ws ps)]
        = map (\<lambda>i. process_inline_markup (rstrip_ws (ps ! i)) @
                          (if i + 1 < length ps \<and> rstrip_ws (ps ! (i + 1)) \<noteq> []
                           then ''<br/>'' else []))
                    [0..<length ps]"
    by (rule nth_equalityI) auto
  then show "convert_paragraph (map rstrip_ws ps) =
             ''<p>\<newline>'' @
             str_join ''\<newline>''
               (map (\<lambda>i. process_inline_markup (rstrip_ws (ps ! i)) @
                          (if i + 1 < length ps \<and> rstrip_ws (ps ! (i + 1)) \<noteq> []
                           then ''<br/>'' else []))
                    [0..<length ps]) @
             ''\<newline></p>''"
    by (simp only: convert_paragraph_index [of "map rstrip_ws ps"])
qed

theorem paragraph_run_is_one_block_witness:
  "main_fragments [''# T'', ''a'', ''b  '', ''- x'']
     = Inr [''<h1>T</h1>'', ''<p>\<newline>a<br/>\<newline>b\<newline></p>'', ''<ul>\<newline><li>x</li>\<newline></ul>'']"
proof -
  have 1: "[''a'', ''b  ''] \<noteq> []" by simp
  have 2: "\<forall>l\<in>set [''a'', ''b  '']. classify (rstrip_ws l) = BlockLine T_p"
    by (simp add: classify_def text_defs)
  have 3: "[''# T''] = [] \<or> classify (rstrip_ws (last [''# T''])) \<noteq> BlockLine T_p"
    by (simp add: classify_def text_defs)
  have 4: "[''- x''] = [] \<or> classify (rstrip_ws (hd [''- x''])) \<noteq> BlockLine T_p"
    by (simp add: classify_def text_defs)
  from paragraph_run_is_one_block [OF 1 2 3 4] show ?thesis
    by (simp add: scan_defs convert_heading_def convert_unordered_list_def
          convert_paragraph_def enumerate_eq_zip text_defs inline_defs)
qed

text \<open>
  C7. A blank line between two runs of paragraph lines yields two \<open><p>\<close> blocks, one
  after the other, never one merged block; after the blank line the accumulator is empty
  and the current type is \<open>None\<close>.
\<close>

theorem blank_line_separates_paragraphs:
  assumes "ps1 \<noteq> []" and "\<forall>l\<in>set ps1. classify (rstrip_ws l) = BlockLine T_p"
    and "ps2 \<noteq> []" and "\<forall>l\<in>set ps2. classify (rstrip_ws l) = BlockLine T_p"
    and "rstrip_ws b = []"
    and "pre = [] \<or> classify (rstrip_ws (last pre)) \<noteq> BlockLine T_p"
    and "post = [] \<or> classify (rstrip_ws (hd post)) \<noteq> BlockLine T_p"
  shows "(\<exists>before after.
            main_fragments pre = Inr before \<and> main_fragments post = Inr after \<and>
            main_fragments (pre @ ps1 @ [b] @ ps2 @ post)
              = Inr (before @ [convert_paragraph (map rstrip_ws ps1),
                               convert_paragraph (map rstrip_ws ps2)] @ after))
         \<and> (\<exists>st. process_lines init_state (pre @ ps1 @ [b]) = Inr st
                \<and> current_block st = [] \<and> current_type st = None)"
proof
  have blank: "classify (rstrip_ws b) = BlankLine"
    using assms(5) by (simp add: classify_def startswith_def)
  have "spec_blocks (pre @ ps1 @ ([b] @ ps2 @ post))
          = spec_blocks pre @ mk_block T_p (map rstrip_ws ps1) # spec_blocks ([b] @ ps2 @ post)"
    using assms(1,2,6) blank by (intro blocks_of_run) simp_all
  moreover have "spec_blocks ([b] @ ps2 @ post)
          = spec_blocks [b] @ mk_block T_p (map rstrip_ws ps2) # spec_blocks post"
    using assms(3,4,7) blank by (intro blocks_of_run) simp_all
  moreover have "spec_blocks [b] = []"
    using blank by (simp add: spec_blocks_def)
  ultimately show "\<exists>before after.
            main_fragments pre = Inr before \<and> main_fragments post = Inr after \<and>
            main_fragments (pre @ ps1 @ [b] @ ps2 @ post)
              = Inr (before @ [convert_paragraph (map rstrip_ws ps1),
                               convert_paragraph (map rstrip_ws ps2)] @ after)"
    by (simp add: main_fragments_blocks)
next
  have init: "sim init_state None"
    by (simp add: sim_def init_state_def)
  from process_lines_reach [OF init, of "pre @ butlast ps1"] obtain st0 opn0 where
    0: "process_lines init_state (pre @ butlast ps1) = Inr st0" and s0: "sim st0 opn0"
    by blast
  from process_line_sim [OF s0, of "last ps1" "[]"] obtain st1 opn1 where
    1: "process_line st0 (last ps1) = Inr st1" and s1: "sim st1 opn1"
    by blast
  have "classify (rstrip_ws (last ps1)) = BlockLine T_p"
    using assms(1,2) by simp
  from process_line_paragraph [OF this 1] have ne: "current_block st1 \<noteq> []" by simp
  from process_line_total [OF s1, of b] obtain st2 where
    2: "process_line st1 b = Inr st2" by blast
  from process_line_blank [OF assms(5) 2] ne
  have "current_block st2 = [] \<and> current_type st2 = None" by simp
  moreover have "pre @ ps1 @ [b] = (pre @ butlast ps1) @ [last ps1, b]"
    using assms(1) by simp
  then have "process_lines init_state (pre @ ps1 @ [b]) = Inr st2"
    using 0 1 2 by (simp only: process_lines_append) simp
  ultimately show "\<exists>st. process_lines init_state (pre @ ps1 @ [b]) = Inr st
                \<and> current_block st = [] \<and> current_type st = None"
    by blast
qed

theorem blank_line_separates_paragraphs_witness:
  "main_fragments [''- x'', ''a'', ''b'', '' '', ''c'', ''# T'']
     = Inr [''<ul>\<newline><li>x</li>\<newline></ul>'', ''<p>\<newline>a<br/>\<newline>b\<newline></p>'',
            ''<p>\<newline>c\<newline></p>'', ''<h1>T</h1>'']
   \<and> process_lines init_state [''- x'', ''a'', ''b'', '' '']
     = Inr \<lparr>html_lines = [''<ul>\<newline><li>x</li>\<newline></ul>'', ''<p>\<newline>a<br/>\<newline>b\<newline></p>''],
            current_block = [], current_type = None\<rparr>"
proof -
  have 1: "[''a'', ''b''] \<noteq> []" by simp
  have 2: "\<forall>l\<in>set [''a'', ''b'']. classify (rstrip_ws l) = BlockLine T_p"
    by (simp add: classify_def text_defs)
  have 3: "[''c''] \<noteq> []" by simp
  have 4: "\<forall>l\<in>set [''c'']. classify (rstrip_ws l) = BlockLine T_p"
    by (simp add: classify_def text_defs)
  have 5: "rstrip_ws '' '' = []" by (simp add: text_defs)
  have 6: "[''- x''] = [] \<or> classify (rstrip_ws (last [''- x''])) \<noteq> BlockLine T_p"
    by (simp add: classify_def text_defs)
  have 7: "[''# T''] = [] \<or> classify (rstrip_ws (hd [''# T''])) \<noteq> BlockLine T_p"
    by (simp add: classify_def text_defs)
  from blank_line_separates_paragraphs [OF 1 2 3 4 5 6 7] show ?thesis
    by (simp add: scan_defs convert_heading_def convert_unordered_list_def
          convert_paragraph_def enumerate_eq_zip text_defs inline_defs)
qed

section \<open>The output\<close>


text \<open>
  C9, as stated, fails: a paragraph whose only line is rewritten to the empty text is
  written as an empty \<open><p>\<close> wrapper, the text the paragraph renderer gives for no
  line at all.
\<close>

theorem empty_paragraph_wrapper_example:
  "main_output [''((c))''] = Inr ''<p>\<newline>\<newline></p>''
   \<and> convert_paragraph [] = ''<p>\<newline>\<newline></p>''"
  by (simp add: scan_defs convert_paragraph_def enumerate_eq_zip text_defs inline_defs)

text \<open>
  C9, amended. Every fragment is the rendering of a heading line or of a block with at
  least one line, all of the block's kind; so no fragment is the \<open><ul>\<close> or
  \<open><ol>\<close> wrapper of an empty list, and a \<open><p>\<close> wrapper is never rendered from
  an empty block. The fragments are those of the state machine that forgets the type when
  it closes a block: the type the loop leaves behind after a heading changes nothing,
  since the accumulator is empty after a heading and after a blank line.
\<close>

theorem fragments_come_from_nonempty_blocks:
  "main_fragments lines = Inr (map render_block (spec_blocks lines))
   \<and> list_all block_ok (spec_blocks lines)
   \<and> convert_unordered_list [] \<notin> set (map render_block (spec_blocks lines))
   \<and> convert_ordered_list [] \<notin> set (map render_block (spec_blocks lines))
   \<and> (\<forall>st raw st'.
        classify (rstrip_ws raw) = HeadingLine \<or> classify (rstrip_ws raw) = BlankLine \<longrightarrow>
        process_line st raw = Inr st' \<longrightarrow> current_block st' = [])"
proof (intro conjI)
  show "main_fragments lines = Inr (map render_block (spec_blocks lines))"
    by (rule main_fragments_blocks)
  show ok: "list_all block_ok (spec_blocks lines)"
    by (rule blocks_of_ok)
  have each: "\<And>b. b \<in> set (spec_blocks lines) \<Longrightarrow>
      render_block b \<noteq> convert_unordered_list [] \<and> render_block b \<noteq> convert_ordered_list []"
    using ok by (intro render_block_not_empty_list) (simp add: list_all_iff)
  show "convert_unordered_list [] \<notin> set (map render_block (spec_blocks lines))"
  proof
    assume "convert_unordered_list [] \<in> set (map render_block (spec_blocks lines))"
    then obtain b where "b \<in> set (spec_blocks lines)" "render_block b = convert_unordered_list []"
      by auto
    with each [of b] show False by simp
  qed
  show "convert_ordered_list [] \<notin> set (map render_block (spec_blocks lines))"
  proof
    assume "convert_ordered_list [] \<in> set (map render_block (spec_blocks lines))"
    then obtain b where "b \<in> set (spec_blocks lines)" "render_block b = convert_ordered_list []"
      by auto
    with each [of b] show False by simp
  qed
  show "\<forall>st raw st'.
        classify (rstrip_ws raw) = HeadingLine \<or> classify (rstrip_ws raw) = BlankLine \<longrightarrow>
        process_line st raw = Inr st' \<longrightarrow> current_block st' = []"
    using process_line_closes by blast
qed

theorem fragments_come_from_nonempty_blocks_witness:
  "main_fragments [''- a'', ''# H'', ''b''] =
     Inr [''<ul>\<newline><li>a</li>\<newline></ul>'', ''<h1>H</h1>'', ''<p>\<newline>b\<newline></p>'']
   \<and> spec_blocks [''- a'', ''# H'', ''b''] = [UnorderedList [''- a''], Heading ''# H'', Paragraph [''b'']]
   \<and> process_line \<lparr>html_lines = [], current_block = [''- a''], current_type = Some T_ul\<rparr> ''# H''
       = Inr \<lparr>html_lines = [''<ul>\<newline><li>a</li>\<newline></ul>'', ''<h1>H</h1>''],
              current_block = [], current_type = Some T_ul\<rparr>"
proof -
  have b: "spec_blocks [''- a'', ''# H'', ''b''] = [UnorderedList [''- a''], Heading ''# H'', Paragraph [''b'']]"
    by (simp add: spec_blocks_def classify_def text_defs)
  have p: "process_line \<lparr>html_lines = [], current_block = [''- a''], current_type = Some T_ul\<rparr> ''# H''
       = Inr \<lparr>html_lines = [''<ul>\<newline><li>a</li>\<newline></ul>'', ''<h1>H</h1>''],
              current_block = [], current_type = Some T_ul\<rparr>"
    by (simp add: process_line_def convert_heading_def convert_unordered_list_def
          text_defs inline_defs)
  have c: "classify (rstrip_ws ''# H'') = HeadingLine \<or> classify (rstrip_ws ''# H'') = BlankLine"
    by (simp add: classify_def text_defs)
  from fragments_come_from_nonempty_blocks [of "[''- a'', ''# H'', ''b'']"]
  have "main_fragments [''- a'', ''# H'', ''b'']
          = Inr (map render_block (spec_blocks [''- a'', ''# H'', ''b'']))"
    and "\<forall>st raw st'.
        classify (rstrip_ws raw) = HeadingLine \<or> classify (rstrip_ws raw) = BlankLine \<longrightarrow>
        process_line st raw = Inr st' \<longrightarrow> current_block st' = []"
    by blast+
  then show ?thesis
    using b p c
    by (simp add: render_heading_def convert_heading_def convert_unordered_list_def
          convert_paragraph_def enumerate_eq_zip text_defs inline_defs)
qed

text \<open>
  C10. No line of the accumulator is ever empty, every paragraph block has at least one
  line and no empty line, and so its rendering has \<open><br/>\<close> after every line but the
  last and after no other.
\<close>

theorem paragraph_lines_nonempty:
  "main_fragments lines = Inr (map render_block (spec_blocks lines))
   \<and> (\<forall>ls. Paragraph ls \<in> set (spec_blocks lines) \<longrightarrow>
          ls \<noteq> [] \<and> [] \<notin> set ls \<and>
          convert_paragraph ls =
            ''<p>\<newline>'' @
            str_join ''\<newline>''
              (map (\<lambda>l. process_inline_markup l @ ''<br/>'') (butlast ls)
               @ [process_inline_markup (last ls)]) @
            ''\<newline></p>'')
   \<and> (\<forall>st. process_lines init_state lines = Inr st \<longrightarrow> [] \<notin> set (current_block st))"
proof (intro conjI allI impI)
  show "main_fragments lines = Inr (map render_block (spec_blocks lines))"
    by (rule main_fragments_blocks)
next
  fix ls
  assume "Paragraph ls \<in> set (spec_blocks lines)"
  with blocks_of_ok [of lines] have "block_ok (Paragraph ls)"
    by (auto simp: list_all_iff)
  then have ne: "ls \<noteq> []" and all: "\<forall>l\<in>set ls. classify l = BlockLine T_p"
    by (auto simp: list_all_iff)
  from all have no: "[] \<notin> set ls"
    using classify_block_line_nonempty by blast
  show "ls \<noteq> []" by (rule ne)
  show "[] \<notin> set ls" by (rule no)
  show "convert_paragraph ls =
            ''<p>\<newline>'' @
            str_join ''\<newline>''
              (map (\<lambda>l. process_inline_markup l @ ''<br/>'') (butlast ls)
               @ [process_inline_markup (last ls)]) @
            ''\<newline></p>''"
    using ne no by (rule convert_paragraph_breaks)
next
  fix st
  assume "process_lines init_state lines = Inr st"
  moreover have "[] \<notin> set (current_block init_state)"
    by (simp add: init_state_def)
  ultimately show "[] \<notin> set (current_block st)"
    using process_lines_no_empty by blast
qed

theorem paragraph_lines_nonempty_witness:
  "main_fragments [''a'', ''b'', ''c'', '''', ''d'', ''e'']
     = Inr [''<p>\<newline>a<br/>\<newline>b<br/>\<newline>c\<newline></p>'', ''<p>\<newline>d<br/>\<newline>e\<newline></p>'']
   \<and> spec_blocks [''a'', ''b'', ''c'', '''', ''d'', ''e''] = [Paragraph [''a'', ''b'', ''c''], Paragraph [''d'', ''e'']]
   \<and> process_lines init_state [''a'', ''b'', ''c'', '''', ''d'', ''e'']
     = Inr \<lparr>html_lines = [''<p>\<newline>a<br/>\<newline>b<br/>\<newline>c\<newline></p>''],
            current_block = [''d'', ''e''], current_type = Some T_p\<rparr>"
proof -
  have b: "spec_blocks [''a'', ''b'', ''c'', '''', ''d'', ''e''] = [Paragraph [''a'', ''b'', ''c''], Paragraph [''d'', ''e'']]"
    by (simp add: spec_blocks_def classify_def text_defs)
  have p: "process_inline_markup ''a'' = ''a''" "process_inline_markup ''b'' = ''b''"
    "process_inline_markup ''c'' = ''c''" "process_inline_markup ''d'' = ''d''"
    "process_inline_markup ''e'' = ''e''"
    by (simp_all add: text_defs inline_defs)
  have s: "process_lines init_state [''a'', ''b'', ''c'', '''', ''d'', ''e'']
     = Inr \<lparr>html_lines = [convert_paragraph [''a'', ''b'', ''c'']],
            current_block = [''d'', ''e''], current_type = Some T_p\<rparr>"
    by (simp add: init_state_def process_line_def text_defs)
  from paragraph_lines_nonempty [of "[''a'', ''b'', ''c'', '''', ''d'', ''e'']"]
  have m: "main_fragments [''a'', ''b'', ''c'', '''', ''d'', ''e'']
          = Inr (map render_block (spec_blocks [''a'', ''b'', ''c'', '''', ''d'', ''e'']))"
    and f: "\<And>ls. Paragraph ls \<in> set (spec_blocks [''a'', ''b'', ''c'', '''', ''d'', ''e'']) \<Longrightarrow>
          convert_paragraph ls =
            ''<p>\<newline>'' @
            str_join ''\<newline>''
              (map (\<lambda>l. process_inline_markup l @ ''<br/>'') (butlast ls)
               @ [process_inline_markup (last ls)]) @
            ''\<newline></p>''"
    by blast+
  have 1: "convert_paragraph [''a'', ''b'', ''c''] = ''<p>\<newline>a<br/>\<newline>b<br/>\<newline>c\<newline></p>''"
    using f [of "[''a'', ''b'', ''c'']"] by (simp add: b p)
  have 2: "convert_paragraph [''d'', ''e''] = ''<p>\<newline>d<br/>\<newline>e\<newline></p>''"
    using f [of "[''d'', ''e'']"] by (simp add: b p)
  have m': "main_fragments [''a'', ''b'', ''c'', '''', ''d'', ''e'']
     = Inr [''<p>\<newline>a<br/>\<newline>b<br/>\<newline>c\<newline></p>'', ''<p>\<newline>d<br/>\<newline>e\<newline></p>'']"
    using m by (simp only: b list.map render_block.simps 1 2)
  have s': "process_lines init_state [''a'', ''b'', ''c'', '''', ''d'', ''e'']
     = Inr \<lparr>html_lines = [''<p>\<newline>a<br/>\<newline>b<br/>\<newline>c\<newline></p>''],
            current_block = [''d'', ''e''], current_type = Some T_p\<rparr>"
    using s by (simp only: 1)
  from m' b s' show ?thesis by (intro conjI)
qed

section \<open>The passes on lines whose spans stand apart\<close>




lemma startswith_Cons_Cons: "startswith (x # xs) (y # ys) = (x = y \<and> startswith xs ys)"
  by (auto simp: startswith_def)

lemma startswith_Cons_Nil: "\<not> startswith (x # xs) []"
  by (simp add: startswith_def)

lemma startswith_append_same: "startswith (p @ q) (p @ r) = startswith q r"
  by (induction p) (simp_all add: startswith_Cons_Cons)
























section \<open>The digest\<close>



























section \<open>Lines with no closing delimiter\<close>









section \<open>The strip pass\<close>




section \<open>The digest pass\<close>




end
